theory Spec2Isabelle
  imports Main "HOL-Library.Word" "HOL-Library.AList"
begin

section \<open>SQLite to MySQL dump converter (SQLtoMy.py)\<close>

text \<open>
  A shallow embedding of the conversion engine of \<^verbatim>\<open>SQLtoMy.py\<close>: the dependency
  resolver \<^verbatim>\<open>topological_sort_tables\<close>, the type mapper \<^verbatim>\<open>sqlite_to_mysql_type\<close>, and the
  column-clause emitter, the value encoder and the paging loop of \<^verbatim>\<open>create_sql_dump\<close>.

  Python \<^verbatim>\<open>str\<close> values are Isabelle strings, one \<open>char\<close> per code point, so the model
  covers text whose code points are below 256; \<^verbatim>\<open>str.upper\<close> is modelled on ASCII letters.
  Python's unbounded \<^verbatim>\<open>int\<close> is \<open>int\<close>, \<^verbatim>\<open>bytes\<close> is a list of 8-bit words, \<^verbatim>\<open>None\<close> is
  \<open>None\<close> of an option type, and the log is the list of messages written to it.

  The file is read line by line, as Python 3.12 or later reads the lines that are valid
  there (lines 287 and 410 hold a backslash inside a string of an f-string expression).
  Lines 392 and 397 are valid in no version of Python; how the model reads them is said at
  the value encoder.
\<close>

subsection \<open>Python built-ins on strings and integers\<close>

definition digit_char :: "nat \<Rightarrow> char" where
  "digit_char d = ''0123456789abcdef'' ! d"

text \<open>\<^verbatim>\<open>str(n)\<close> for an integer: its decimal form, with a minus sign when negative.\<close>

function str_nat :: "nat \<Rightarrow> string" where
  "str_nat n = (if n < 10 then [digit_char n] else str_nat (n div 10) @ [digit_char (n mod 10)])"
  by pat_completeness auto
termination
  by (relation "measure (\<lambda>n. n)") auto

declare str_nat.simps [simp del]

definition str_int :: "int \<Rightarrow> string" where
  "str_int i = (if i < 0 then CHR ''-'' # str_nat (nat (- i)) else str_nat (nat i))"

text \<open>\<^verbatim>\<open>str.upper\<close>, on ASCII letters; other characters are kept.\<close>

definition upper_char :: "char \<Rightarrow> char" where
  "upper_char c =
     (case map_of (zip ''abcdefghijklmnopqrstuvwxyz'' ''ABCDEFGHIJKLMNOPQRSTUVWXYZ'') c of
        None \<Rightarrow> c | Some u \<Rightarrow> u)"

definition upper :: "string \<Rightarrow> string" where
  "upper s = map upper_char s"

text \<open>
  \<^verbatim>\<open>str.isprintable\<close> for one character, on code points below 256: the ASCII range from the
  space to the tilde, and the Latin-1 range from U+00A1 without the soft hyphen U+00AD.
\<close>

definition isprintable :: "char \<Rightarrow> bool" where
  "isprintable c =
     (let n = (of_char c :: nat) in (32 \<le> n \<and> n \<le> 126) \<or> (161 \<le> n \<and> n \<noteq> 173))"

text \<open>\<^verbatim>\<open>s.replace(old, new)\<close> for a one-character \<^verbatim>\<open>old\<close>.\<close>

definition replace_char :: "char \<Rightarrow> string \<Rightarrow> string \<Rightarrow> string" where
  "replace_char old new s = concat (map (\<lambda>c. if c = old then new else [c]) s)"

subsection \<open>Identifier and value helpers\<close>

definition escape_sql_identifier :: "string \<Rightarrow> string" where
  "escape_sql_identifier name = replace_char CHR ''`'' ''``'' name"

definition sanitize_sql_value :: "string \<Rightarrow> string" where
  "sanitize_sql_value v = replace_char (CHR 0x00) [] (filter isprintable v)"

subsection \<open>The type mapper\<close>

definition type_mapping :: "bool \<Rightarrow> (string \<times> string) list" where
  "type_mapping is_primary =
     [(''TEXT'', ''TEXT''),
      (''INTEGER'', if is_primary then ''BIGINT'' else ''INT''),
      (''REAL'', ''DOUBLE''),
      (''BLOB'', ''LONGBLOB''),
      (''NULL'', ''NULL''),
      (''DATETIME'', ''DATETIME''),
      (''DATE'', ''DATE''),
      (''BOOLEAN'', ''BOOLEAN''),
      (''NUMERIC'', ''DECIMAL(10,2)''),
      (''DECIMAL'', ''DECIMAL(10,2)'')]"

text \<open>
  The base type before the auto-increment and nullability suffixes: the table entry (or the
  type itself when the table has none), then the width rules on the observed statistics.
\<close>

definition base_type :: "string \<Rightarrow> int option \<Rightarrow> int option \<Rightarrow> bool \<Rightarrow> string" where
  "base_type sqlite_type max_length max_value is_primary =
     (let t = upper sqlite_type;
          b = (case map_of (type_mapping is_primary) t of None \<Rightarrow> t | Some m \<Rightarrow> m)
      in if t = ''TEXT'' \<and> max_length \<noteq> None then
           (if the max_length > 65535 then ''LONGTEXT''
            else if the max_length > 255 then ''TEXT''
            else ''VARCHAR('' @ str_int (min (the max_length) 255) @ '')'')
         else if t = ''INTEGER'' \<and> max_value \<noteq> None then
           (if - 2147483648 \<le> the max_value \<and> the max_value \<le> 2147483647 then ''INT''
            else if - 9223372036854775808 \<le> the max_value
                  \<and> the max_value \<le> 9223372036854775807 then ''BIGINT''
            else b)
         else b)"

definition sqlite_to_mysql_type ::
  "string \<Rightarrow> int option \<Rightarrow> bool \<Rightarrow> int option \<Rightarrow> bool \<Rightarrow> string" where
  "sqlite_to_mysql_type sqlite_type max_length nullable max_value is_primary =
     (let b = base_type sqlite_type max_length max_value is_primary;
          b' = (if is_primary \<and> upper sqlite_type = ''INTEGER'' then b @ '' AUTO_INCREMENT''
                else b)
      in b' @ (if nullable then '' DEFAULT NULL'' else '' NOT NULL''))"

subsection \<open>Column metadata and the column clause of CREATE TABLE\<close>

text \<open>A row of \<^verbatim>\<open>PRAGMA table_info\<close>: cid, name, type, notnull, dflt_value, pk.\<close>

record column_info =
  c_cid :: int
  c_name :: string
  c_type :: "string option"
  c_notnull :: int
  c_dflt_value :: "string option"
  c_pk :: int

text \<open>The \<^verbatim>\<open>metadata\<close> dictionary kept for each column.\<close>

record column_meta =
  m_type :: string
  m_nullable :: bool
  m_is_primary :: bool
  m_default_value :: "string option"
  m_max_length :: int
  m_max_value :: int

text \<open>
  The statistics probe (\<^verbatim>\<open>SELECT MAX(...)\<close>) either raises \<^verbatim>\<open>sqlite3.Error\<close> or yields one
  value, which is \<^verbatim>\<open>None\<close> on an empty table. The value is taken to be an integer. SQLite
  can hold text in a column declared \<^verbatim>\<open>INTEGER\<close>; the maximum is then a \<^verbatim>\<open>str\<close>, the
  comparison in \<^verbatim>\<open>sqlite_to_mysql_type\<close> raises \<^verbatim>\<open>TypeError\<close>, and that run is outside the
  model.
\<close>

datatype probe = ProbeError | ProbeValue "int option"

definition col_type_of :: "column_info \<Rightarrow> string" where
  "col_type_of col =
     (case c_type col of None \<Rightarrow> ''TEXT'' | Some t \<Rightarrow> if t = [] then ''TEXT'' else upper t)"

definition or_zero :: "int option \<Rightarrow> int" where
  "or_zero v = (case v of None \<Rightarrow> 0 | Some n \<Rightarrow> n)"

definition build_metadata :: "column_info \<Rightarrow> probe \<Rightarrow> column_meta" where
  "build_metadata col pr =
     (let metadata = \<lparr>m_type = col_type_of col, m_nullable = (c_notnull col = 0),
                       m_is_primary = (c_pk col > 0), m_default_value = c_dflt_value col,
                       m_max_length = 0, m_max_value = 0\<rparr>
      in if col_type_of col = ''TEXT'' then
           (case pr of ProbeError \<Rightarrow> metadata
            | ProbeValue v \<Rightarrow> metadata\<lparr>m_max_length := or_zero v\<rparr>)
         else if col_type_of col = ''INTEGER'' then
           (case pr of ProbeError \<Rightarrow> metadata
            | ProbeValue v \<Rightarrow> metadata\<lparr>m_max_value := or_zero v\<rparr>)
         else metadata)"

text \<open>
  \<^verbatim>\<open>\w\<close> of a Python \<^verbatim>\<open>str\<close> pattern on code points below 256: alphanumeric characters
  (letters, digits and the numeric characters of Latin-1) and the underscore.
\<close>

definition isword :: "char \<Rightarrow> bool" where
  "isword c =
     (let n = (of_char c :: nat)
      in (48 \<le> n \<and> n \<le> 57) \<or> (65 \<le> n \<and> n \<le> 90) \<or> n = 95 \<or> (97 \<le> n \<and> n \<le> 122)
         \<or> n = 170 \<or> n = 178 \<or> n = 179 \<or> n = 181 \<or> n = 185 \<or> n = 186
         \<or> n = 188 \<or> n = 189 \<or> n = 190 \<or> (192 \<le> n \<and> n \<noteq> 215 \<and> n \<noteq> 247))"

text \<open>
  \<^verbatim>\<open>re.match(r'^\w+\(.*\)$', s)\<close>: a non-empty run of word characters, an opening
  parenthesis, characters other than the newline, and a closing parenthesis at the end of the
  string or before its final newline.
\<close>

definition ends_with_paren :: "string \<Rightarrow> bool" where
  "ends_with_paren t = (t \<noteq> [] \<and> last t = CHR '')'' \<and> CHR 0x0A \<notin> set (butlast t))"

definition is_function_call :: "string \<Rightarrow> bool" where
  "is_function_call s =
     (let w = takeWhile isword s; r = dropWhile isword s
      in w \<noteq> [] \<and> r \<noteq> [] \<and> hd r = CHR ''('' \<and>
         (ends_with_paren (tl r) \<or>
          (tl r \<noteq> [] \<and> last (tl r) = CHR 0x0A \<and> ends_with_paren (butlast (tl r)))))"

text \<open>
  One entry of \<^verbatim>\<open>columns\<close> in the structure branch of \<^verbatim>\<open>create_sql_dump\<close>, with the
  warnings it logs.
\<close>

definition column_clause :: "string \<Rightarrow> column_meta \<Rightarrow> string \<times> string list" where
  "column_clause col_name meta =
     (let mysql_type = sqlite_to_mysql_type (m_type meta) (Some (m_max_length meta))
                         (m_nullable meta) (Some (m_max_value meta)) (m_is_primary meta);
          (mysql_type', warnings) =
            (case m_default_value meta of
               None \<Rightarrow> (mysql_type, [])
             | Some dv \<Rightarrow>
                 if dv = [] then (mysql_type, [])
                 else if upper dv = ''NULL'' then (mysql_type @ '' DEFAULT NULL'', [])
                 else if m_type meta \<in> set [''TEXT'', ''DATETIME'', ''DATE''] then
                   (let default = sanitize_sql_value dv
                    in if is_function_call default then
                         (mysql_type,
                          [''Skipping complex default value for '' @ col_name @ '': '' @ default])
                       else (mysql_type @ '' DEFAULT '' @ [CHR 0x27] @ default @ [CHR 0x27], []))
                 else (mysql_type @ '' DEFAULT '' @ dv, []))
      in ([CHR ''`''] @ escape_sql_identifier col_name @ ''` '' @ mysql_type', warnings))"

subsection \<open>Row values and their literals\<close>

text \<open>
  A value of a fetched row, as the \<^verbatim>\<open>sqlite3\<close> module returns it: \<^verbatim>\<open>None\<close>, \<^verbatim>\<open>int\<close>,
  \<^verbatim>\<open>float\<close>, \<^verbatim>\<open>str\<close> or \<^verbatim>\<open>bytes\<close>. A float is held as the text \<^verbatim>\<open>str\<close> gives for it,
  the only thing the encoder asks of it.
\<close>

datatype sql_value =
  SqlNull | SqlInt int | SqlReal string | SqlText string | SqlBlob "8 word list"

text \<open>\<^verbatim>\<open>bytes.hex()\<close>: two lower-case hexadecimal digits for each byte.\<close>

definition hex_byte :: "8 word \<Rightarrow> string" where
  "hex_byte b = [digit_char (unat b div 16), digit_char (unat b mod 16)]"

definition hex :: "8 word list \<Rightarrow> string" where
  "hex bs = concat (map hex_byte bs)"

subsection \<open>Paths and the file system\<close>

text \<open>\<^verbatim>\<open>os.path.join\<close> of two components and \<^verbatim>\<open>os.path.dirname\<close>, as \<^verbatim>\<open>posixpath\<close> has them.\<close>

definition os_path_join :: "string \<Rightarrow> string \<Rightarrow> string" where
  "os_path_join a b =
     (if b \<noteq> [] \<and> hd b = CHR ''/'' then b
      else if a = [] \<or> last a = CHR ''/'' then a @ b
      else a @ ''/'' @ b)"

definition rstrip_slash :: "string \<Rightarrow> string" where
  "rstrip_slash s = rev (dropWhile (\<lambda>c. c = CHR ''/'') (rev s))"

definition os_path_dirname :: "string \<Rightarrow> string" where
  "os_path_dirname p =
     (let head = rev (dropWhile (\<lambda>c. c \<noteq> CHR ''/'') (rev p))
      in if head \<noteq> [] \<and> filter (\<lambda>c. c \<noteq> CHR ''/'') head \<noteq> [] then rstrip_slash head
         else head)"

text \<open>
  What the run is given: the options of \<^verbatim>\<open>create_sql_dump\<close> that the data branch reads, and
  the operating system's answers (whether \<^verbatim>\<open>os.makedirs\<close> and the writing of a file succeed
  or raise \<^verbatim>\<open>OSError\<close>, and \<^verbatim>\<open>os.path.relpath\<close>, which depends on the working directory).
\<close>

record config =
  batch_size :: int
  max_blob_size :: int
  blob_dir :: "string option"
  relative_blob_paths :: bool
  dump_file :: string
  makedirs_ok :: "string \<Rightarrow> bool"
  write_ok :: "string \<Rightarrow> bool"
  relpath :: "string \<Rightarrow> string \<Rightarrow> string"

text \<open>
  What the run changes outside the dump: the files written so far (path to contents) and the
  warnings logged. The text of a caught exception is not part of a logged message here.
\<close>

record world =
  files :: "string \<rightharpoonup> 8 word list"
  warnings :: "string list"

definition warn :: "string \<Rightarrow> world \<Rightarrow> world" where
  "warn msg w = w\<lparr>warnings := warnings w @ [msg]\<rparr>"

subsection \<open>The value encoder\<close>

text \<open>
  The branch for a \<^verbatim>\<open>bytes\<close> value of a \<^verbatim>\<open>BLOB\<close> column. A failing \<^verbatim>\<open>os.makedirs\<close> is caught
  by the outer handler, a failing write by the inner one; both give \<^verbatim>\<open>NULL\<close> and leave the
  files as they were.
\<close>

definition blob_filename :: "string \<Rightarrow> string \<Rightarrow> int \<Rightarrow> nat \<Rightarrow> string" where
  "blob_filename item_name col_name offset i =
     item_name @ ''_'' @ col_name @ ''_'' @ str_int offset @ ''_'' @ str_nat i @ ''.bin''"

definition blob_dir_set :: "config \<Rightarrow> bool" where
  "blob_dir_set cfg = (case blob_dir cfg of None \<Rightarrow> False | Some d \<Rightarrow> d \<noteq> [])"

definition encode_blob ::
  "config \<Rightarrow> string \<Rightarrow> string \<Rightarrow> int \<Rightarrow> nat \<Rightarrow> 8 word list \<Rightarrow> world \<Rightarrow> string \<times> world" where
  "encode_blob cfg item_name col_name offset i col_value w =
     (if blob_dir_set cfg \<and> int (length col_value) > max_blob_size cfg then
        (let dir = the (blob_dir cfg);
             blob_path = os_path_join dir (blob_filename item_name col_name offset i)
         in if \<not> makedirs_ok cfg dir then
              (''NULL'', warn (''Error processing value for '' @ col_name) w)
            else if \<not> write_ok cfg blob_path then
              (''NULL'', warn (''Error writing BLOB file '' @ blob_path) w)
            else
              (let w' = w\<lparr>files := (files w)(blob_path \<mapsto> col_value)\<rparr>
               in if files w' blob_path = None then
                    (''NULL'', warn (''Failed to write BLOB file '' @ blob_path) w')
                  else if relative_blob_paths cfg then
                    (''LOAD_FILE('' @ [CHR 0x27]
                       @ relpath cfg blob_path (os_path_dirname (dump_file cfg))
                       @ [CHR 0x27] @ '')'', w')
                  else (''LOAD_FILE('' @ [CHR 0x27] @ blob_path @ [CHR 0x27] @ '')'', w')))
      else if int (length col_value) > max_blob_size cfg then
        (''NULL'',
         warn (''Skipping large BLOB in '' @ col_name @ '' (size: ''
               @ str_nat (length col_value) @ '' bytes)'') w)
      else (''UNHEX('' @ [CHR 0x27] @ hex col_value @ [CHR 0x27] @ '')'', w))"

text \<open>
  Lines 392 and 397 are the same text: \<^verbatim>\<open>values.append\<close> of an f-string that is a single
  quote, the replacement field \<^verbatim>\<open>sanitized.replace("'", "''")\<close> and a single quote, written
  with a backslash before each of the four double quotes of the field. A backslash in a
  replacement field, outside any string, is a \<^verbatim>\<open>SyntaxError\<close> in every version of Python.
  The lines are an attempt at a single-quoted literal with every quote doubled, and no
  literal can come from them as they are written. Both stand inside the \<^verbatim>\<open>try\<close> block of
  line 362, whose handler (lines 398 to 400) logs a warning and appends \<^verbatim>\<open>NULL\<close>; read line
  by line, a value that reaches one of them fails there and gets that outcome. The model
  does not repair the two lines.
\<close>

definition invalid_line :: "string \<Rightarrow> world \<Rightarrow> string \<times> world" where
  "invalid_line col_name w = (''NULL'', warn (''Error processing value for '' @ col_name) w)"

text \<open>
  One value of a row. The tests are those of the source, in its order: \<^verbatim>\<open>None\<close>; \<^verbatim>\<open>bytes\<close>
  in a column whose type is \<^verbatim>\<open>BLOB\<close>; \<^verbatim>\<open>str\<close> (line 392); \<^verbatim>\<open>int\<close> or \<^verbatim>\<open>float\<close>; anything
  else, which leaves \<^verbatim>\<open>bytes\<close> in a column of another type (line 397).
\<close>

fun encode_value ::
  "config \<Rightarrow> string \<Rightarrow> string \<Rightarrow> string \<Rightarrow> int \<Rightarrow> nat \<Rightarrow> sql_value \<Rightarrow> world \<Rightarrow> string \<times> world"
  where
  "encode_value cfg item_name col_name col_type offset i SqlNull w = (''NULL'', w)"
| "encode_value cfg item_name col_name col_type offset i (SqlBlob b) w =
     (if col_type = ''BLOB'' then encode_blob cfg item_name col_name offset i b w
      else invalid_line col_name w)"
| "encode_value cfg item_name col_name col_type offset i (SqlText s) w = invalid_line col_name w"
| "encode_value cfg item_name col_name col_type offset i (SqlInt n) w = (str_int n, w)"
| "encode_value cfg item_name col_name col_type offset i (SqlReal r) w = (r, w)"

subsection \<open>Rows, pages and INSERT statements\<close>

datatype py_error = IndexError | KeyError

text \<open>\<^verbatim>\<open>sep.join(xs)\<close>.\<close>

fun join :: "string \<Rightarrow> string list \<Rightarrow> string" where
  "join sep [] = []"
| "join sep [x] = x"
| "join sep (x # y # ys) = x @ sep @ join sep (y # ys)"

text \<open>
  The loop over the values of one row, from column index \<open>i\<close> on. The column name is read
  from \<^verbatim>\<open>columns_info[i]\<close> and the type from \<^verbatim>\<open>column_metadata\<close> outside the handler, so
  a row longer than \<^verbatim>\<open>columns_info\<close> raises \<^verbatim>\<open>IndexError\<close> out of the run.
\<close>

fun encode_values ::
  "config \<Rightarrow> string \<Rightarrow> column_info list \<Rightarrow> (string \<rightharpoonup> column_meta) \<Rightarrow> int \<Rightarrow> nat
   \<Rightarrow> sql_value list \<Rightarrow> string list \<times> world \<Rightarrow> py_error + (string list \<times> world)" where
  "encode_values cfg item_name columns_info column_metadata offset i [] (values, w) =
     Inr (values, w)"
| "encode_values cfg item_name columns_info column_metadata offset i (col_value # rest)
     (values, w) =
     (if i \<ge> length columns_info then Inl IndexError
      else
        (let col_name = c_name (columns_info ! i)
         in case column_metadata col_name of
              None \<Rightarrow> Inl KeyError
            | Some meta \<Rightarrow>
                (let (lit, w') = encode_value cfg item_name col_name (m_type meta) offset i
                                   col_value w
                 in encode_values cfg item_name columns_info column_metadata offset (Suc i)
                      rest (values @ [lit], w'))))"

definition encode_row ::
  "config \<Rightarrow> string \<Rightarrow> column_info list \<Rightarrow> (string \<rightharpoonup> column_meta) \<Rightarrow> int
   \<Rightarrow> sql_value list \<Rightarrow> world \<Rightarrow> py_error + (string \<times> world)" where
  "encode_row cfg item_name columns_info column_metadata offset row w =
     (case encode_values cfg item_name columns_info column_metadata offset 0 row ([], w) of
        Inl e \<Rightarrow> Inl e
      | Inr (values, w') \<Rightarrow> Inr (''('' @ join '', '' values @ '')'', w'))"

text \<open>The loop over the rows of one page: the tuples are appended to \<^verbatim>\<open>values_list\<close>.\<close>

fun encode_rows ::
  "config \<Rightarrow> string \<Rightarrow> column_info list \<Rightarrow> (string \<rightharpoonup> column_meta) \<Rightarrow> int
   \<Rightarrow> sql_value list list \<Rightarrow> string list \<times> nat \<times> world
   \<Rightarrow> py_error + (string list \<times> nat \<times> world)" where
  "encode_rows cfg item_name columns_info column_metadata offset []
     (values_list, row_count, w) = Inr (values_list, row_count, w)"
| "encode_rows cfg item_name columns_info column_metadata offset (row # rows)
     (values_list, row_count, w) =
     (case encode_row cfg item_name columns_info column_metadata offset row w of
        Inl e \<Rightarrow> Inl e
      | Inr (tuple, w') \<Rightarrow>
          encode_rows cfg item_name columns_info column_metadata offset rows
            (values_list @ [tuple], row_count + 1, w'))"










definition column_metadata_of ::
  "column_info list \<Rightarrow> (string \<Rightarrow> probe) \<Rightarrow> (string \<rightharpoonup> column_meta)" where
  "column_metadata_of columns_info probes =
     map_of (rev (map (\<lambda>col. (c_name col, build_metadata col (probes (c_name col))))
                    columns_info))"

subsection \<open>The dependency resolver\<close>

text \<open>
  A row of \<^verbatim>\<open>PRAGMA foreign_key_list\<close>: id, seq, table, from, to, on_update, on_delete,
  match. The resolver reads the referenced table, \<^verbatim>\<open>fk[2]\<close>.
\<close>

record foreign_key =
  fk_id :: int
  fk_seq :: int
  fk_table :: string
  fk_from :: string
  fk_to :: string
  fk_on_update :: string
  fk_on_delete :: string
  fk_match :: string

text \<open>
  A \<^verbatim>\<open>defaultdict\<close> is an association list with a default for the keys it does not hold;
  \<open>AList.update\<close> replaces the value of a key or appends a new key.
\<close>

definition dd_get :: "'v \<Rightarrow> ('k \<times> 'v) list \<Rightarrow> 'k \<Rightarrow> 'v" where
  "dd_get dflt d k = (case map_of d k of None \<Rightarrow> dflt | Some v \<Rightarrow> v)"

type_synonym graph = "(string \<times> string list) list"
type_synonym in_degrees = "(string \<times> int) list"

text \<open>One foreign key of \<open>table\<close>: an edge from the referenced table to \<open>table\<close>.\<close>

definition add_fk :: "string \<Rightarrow> foreign_key \<Rightarrow> graph \<times> in_degrees \<Rightarrow> graph \<times> in_degrees" where
  "add_fk table fk gd =
     (let ref_table = fk_table fk
      in (AList.update ref_table (dd_get [] (fst gd) ref_table @ [table]) (fst gd),
          AList.update table (dd_get 0 (snd gd) table + 1) (snd gd)))"

definition build_graph ::
  "string list \<Rightarrow> (string \<times> foreign_key list) list \<Rightarrow> graph \<times> in_degrees" where
  "build_graph tables foreign_keys =
     fold (\<lambda>(table, fk_info). fold (add_fk table) fk_info) foreign_keys
       ([], fold (\<lambda>table in_degree. AList.update table 0 in_degree) tables [])"

text \<open>The body of \<^verbatim>\<open>for neighbor in graph[table]\<close>, on the in-degrees and the queue.\<close>

definition visit_neighbor :: "string \<Rightarrow> in_degrees \<times> string list \<Rightarrow> in_degrees \<times> string list"
  where
  "visit_neighbor neighbor dq =
     (let in_degree = AList.update neighbor (dd_get 0 (fst dq) neighbor - 1) (fst dq)
      in if dd_get 0 in_degree neighbor = 0 then (in_degree, snd dq @ [neighbor])
         else (in_degree, snd dq))"

text \<open>
  The loop \<^verbatim>\<open>while queue\<close>. The set \<^verbatim>\<open>visited\<close> is filled and never read. The loop ends
  because every turn removes a table from the queue and adds one only when its in-degree,
  positive before, has reached zero.
\<close>

function kahn_loop ::
  "graph \<Rightarrow> in_degrees \<Rightarrow> string list \<Rightarrow> string list \<Rightarrow> string set \<Rightarrow> string list" where
  "kahn_loop graph in_degree [] sorted_tables visited = sorted_tables"
| "kahn_loop graph in_degree (table # queue) sorted_tables visited =
     kahn_loop graph
       (fst (fold visit_neighbor (dd_get [] graph table) (in_degree, queue)))
       (snd (fold visit_neighbor (dd_get [] graph table) (in_degree, queue)))
       (sorted_tables @ [table]) (insert table visited)"
  by pat_completeness auto
termination
proof (relation "measure (\<lambda>(graph, in_degree, queue, sorted_tables, visited).
                    length queue + card {k. 0 < dd_get 0 in_degree k})", goal_cases)
  case 1
  then show ?case by simp
next
  case (2 graph in_degree table queue sorted_tables visited)
  have upd: "dd_get 0 (AList.update k v d) k' = (if k' = k then v else dd_get 0 d k')"
    for k k' :: string and v :: int and d
    by (simp add: dd_get_def update_conv')
  have fin: "finite {k. 0 < dd_get 0 d k}" for d :: in_degrees
  proof (rule finite_subset)
    show "{k. 0 < dd_get 0 d k} \<subseteq> fst ` set d"
      by (auto simp: dd_get_def split: option.splits dest!: map_of_SomeD intro: rev_image_eqI)
    show "finite (fst ` set d)" by simp
  qed
  have step: "length (snd (visit_neighbor n dq))
                + card {k. 0 < dd_get 0 (fst (visit_neighbor n dq)) k}
              \<le> length (snd dq) + card {k. 0 < dd_get 0 (fst dq) k}" for n dq
  proof (cases "dd_get 0 (fst dq) n = 1")
    case True
    then have eq: "{k. 0 < dd_get 0 (AList.update n (dd_get 0 (fst dq) n - 1) (fst dq)) k}
                     = {k. 0 < dd_get 0 (fst dq) k} - {n}"
      by (auto simp: upd)
    have "Suc (card ({k. 0 < dd_get 0 (fst dq) k} - {n})) = card {k. 0 < dd_get 0 (fst dq) k}"
      by (rule card_Suc_Diff1 [OF fin]) (use True in simp)
    then have "card {k. 0 < dd_get 0 (AList.update n (dd_get 0 (fst dq) n - 1) (fst dq)) k} + 1
                 = card {k. 0 < dd_get 0 (fst dq) k}"
      by (simp only: eq Suc_eq_plus1)
    then show ?thesis using True by (simp add: visit_neighbor_def upd)
  next
    case False
    then have "{k. 0 < dd_get 0 (AList.update n (dd_get 0 (fst dq) n - 1) (fst dq)) k}
                 = {k. 0 < dd_get 0 (fst dq) k}"
      by (auto simp: upd)
    then show ?thesis using False by (simp add: visit_neighbor_def upd)
  qed
  have "length (snd (fold visit_neighbor ns dq))
          + card {k. 0 < dd_get 0 (fst (fold visit_neighbor ns dq)) k}
        \<le> length (snd dq) + card {k. 0 < dd_get 0 (fst dq) k}" for ns dq
  proof (induction ns arbitrary: dq)
    case Nil
    then show ?case by simp
  next
    case (Cons n ns)
    from Cons.IH [of "visit_neighbor n dq"] step [of n dq] show ?case by simp
  qed
  from this [of "dd_get [] graph table" "(in_degree, queue)"] show ?case by simp
qed

text \<open>
  \<^verbatim>\<open>topological_sort_tables\<close>, in two parts: \<^verbatim>\<open>sorted_tables\<close> as the loop leaves it, and
  the result, with the warning logged when the loop did not reach every table.
\<close>

definition kahn_sorted :: "string list \<Rightarrow> (string \<times> foreign_key list) list \<Rightarrow> string list" where
  "kahn_sorted tables foreign_keys =
     (let graph = fst (build_graph tables foreign_keys);
          in_degree = snd (build_graph tables foreign_keys);
          queue = filter (\<lambda>t. dd_get 0 in_degree t = 0) tables
      in kahn_loop graph in_degree queue [] {})"

definition topological_sort_tables ::
  "string list \<Rightarrow> (string \<times> foreign_key list) list \<Rightarrow> string list \<times> string list" where
  "topological_sort_tables tables foreign_keys =
     (let sorted_tables = kahn_sorted tables foreign_keys
      in if length sorted_tables \<noteq> length tables then
           (sorted_tables @ filter (\<lambda>t. t \<notin> set sorted_tables) tables,
            [''Cyclic dependencies detected. Tables may need manual reordering in the SQL file.''])
         else (sorted_tables, []))"

text \<open>\<^verbatim>\<open>xs.index(x)\<close>: the first position of \<open>x\<close>, \<open>None\<close> where Python raises.\<close>

fun list_index :: "'a list \<Rightarrow> 'a \<Rightarrow> nat option" where
  "list_index [] x = None"
| "list_index (y # ys) x = (if y = x then Some 0 else map_option Suc (list_index ys x))"

text \<open>A foreign key that references the table \<open>ref_table\<close>.\<close>

definition references :: "string \<Rightarrow> foreign_key" where
  "references ref_table = \<lparr>fk_id = 0, fk_seq = 0, fk_table = ref_table, fk_from = ''ref_id'',
                   fk_to = ''id'', fk_on_update = ''NO ACTION'', fk_on_delete = ''NO ACTION'',
                   fk_match = ''NONE''\<rparr>"


subsection \<open>Notions for the properties of the resolver\<close>

text \<open>The foreign keys as edges, from the referenced table to the table that holds the key.\<close>

definition fk_edges :: "(string \<times> foreign_key list) list \<Rightarrow> (string \<times> string) list" where
  "fk_edges foreign_keys =
     concat (map (\<lambda>(table, fk_info). map (\<lambda>fk. (fk_table fk, table)) fk_info) foreign_keys)"

text \<open>The graph and the in-degrees hold the edges \<open>es\<close>.\<close>

definition represents :: "(string \<times> string) list \<Rightarrow> graph \<times> in_degrees \<Rightarrow> bool" where
  "represents es gd \<longleftrightarrow>
     (\<forall>r. dd_get [] (fst gd) r = map snd (filter (\<lambda>e. fst e = r) es))
     \<and> (\<forall>t. dd_get 0 (snd gd) t = int (length (filter (\<lambda>e. snd e = t) es)))"

text \<open>
  The invariant of the loop, for the edges \<open>es\<close> and the tables \<open>V\<close>: no table is emitted
  or queued twice, the in-degree of a table counts the edges into it from tables not yet
  emitted, the tables with in-degree zero are the emitted and the queued ones, and every
  emitted table comes after the tables it references.
\<close>

definition kahn_inv ::
  "(string \<times> string) list \<Rightarrow> string set \<Rightarrow> in_degrees \<Rightarrow> string list \<Rightarrow> string list \<Rightarrow> bool"
  where
  "kahn_inv es V d q s \<longleftrightarrow>
     distinct (s @ q) \<and> set (s @ q) \<subseteq> V
     \<and> (\<forall>n. dd_get 0 d n = int (length (filter (\<lambda>e. snd e = n \<and> fst e \<notin> set s) es)))
     \<and> (\<forall>n \<in> V. dd_get 0 d n = 0 \<longleftrightarrow> n \<in> set (s @ q))
     \<and> (\<forall>i < length s. \<forall>e \<in> set es. snd e = s ! i \<longrightarrow> fst e \<in> set (take i s))"

subsection \<open>Reference notions for the properties\<close>

text \<open>
  The decoder of a hexadecimal literal (what \<^verbatim>\<open>UNHEX\<close> computes): two digits for each byte,
  in either case; \<open>None\<close> for an odd length or a character that is no digit.
\<close>

definition hex_val :: "char \<Rightarrow> nat option" where
  "hex_val c = map_of (zip ''0123456789abcdefABCDEF''
                 [0, 1, 2, 3, 4, 5, 6, 7, 8, 9, 10, 11, 12, 13, 14, 15, 10, 11, 12, 13, 14, 15]) c"

fun unhex :: "string \<Rightarrow> 8 word list option" where
  "unhex [] = Some []"
| "unhex [c] = None"
| "unhex (a # b # cs) =
     (case (hex_val a, hex_val b, unhex cs) of
        (Some h, Some l, Some bs) \<Rightarrow> Some (of_nat (16 * h + l) # bs)
      | _ \<Rightarrow> None)"

text \<open>The defaults of the command line, on a system where every write succeeds.\<close>

definition default_config :: config where
  "default_config =
     \<lparr>batch_size = 1000, max_blob_size = 1048576, blob_dir = None,
      relative_blob_paths = False, dump_file = ''out.sql'',
      makedirs_ok = (\<lambda>d. True), write_ok = (\<lambda>p. True), relpath = (\<lambda>p start. p)\<rparr>"

definition empty_world :: world where
  "empty_world = \<lparr>files = Map.empty, warnings = []\<rparr>"

text \<open>A table with one column \<^verbatim>\<open>c BLOB\<close>, and statistics probes that find no row.\<close>

definition empty_probes :: "string \<Rightarrow> probe" where
  "empty_probes n = ProbeValue None"

definition blob_column :: "column_info list" where
  "blob_column = [\<lparr>c_cid = 0, c_name = ''c'', c_type = Some ''BLOB'', c_notnull = 0,
                   c_dflt_value = None, c_pk = 0\<rparr>]"

section \<open>Properties of the type mapper and of the column clause\<close>

lemma str_int_255: "str_int 255 = ''255''"
  by (simp add: str_int_def str_nat.simps digit_char_def)

lemma upper_TEXT: "upper ''TEXT'' = ''TEXT''"
  by (simp add: upper_def upper_char_def)

lemma upper_INTEGER: "upper ''INTEGER'' = ''INTEGER''"
  by (simp add: upper_def upper_char_def)

text \<open>
  C5: the type mapper maps a text column with observed maximum length 255 to
  \<^verbatim>\<open>VARCHAR(255)\<close>, length 256 to \<^verbatim>\<open>TEXT\<close> and length 65536 to \<^verbatim>\<open>LONGTEXT\<close>; it maps
  an integer column that is not a primary key with observed maximum 2147483647 to \<^verbatim>\<open>INT\<close>
  and 2147483648 to \<^verbatim>\<open>BIGINT\<close>. The nullability suffix follows the type in each clause.
\<close>

theorem type_mapper_boundaries:
  "sqlite_to_mysql_type ''TEXT'' (Some 255) nullable mv pk
     = ''VARCHAR(255)'' @ (if nullable then '' DEFAULT NULL'' else '' NOT NULL'')
   \<and> sqlite_to_mysql_type ''TEXT'' (Some 256) nullable mv pk
     = ''TEXT'' @ (if nullable then '' DEFAULT NULL'' else '' NOT NULL'')
   \<and> sqlite_to_mysql_type ''TEXT'' (Some 65536) nullable mv pk
     = ''LONGTEXT'' @ (if nullable then '' DEFAULT NULL'' else '' NOT NULL'')
   \<and> sqlite_to_mysql_type ''INTEGER'' ml nullable (Some 2147483647) False
     = ''INT'' @ (if nullable then '' DEFAULT NULL'' else '' NOT NULL'')
   \<and> sqlite_to_mysql_type ''INTEGER'' ml nullable (Some 2147483648) False
     = ''BIGINT'' @ (if nullable then '' DEFAULT NULL'' else '' NOT NULL'')"
proof -
  have t255: "base_type ''TEXT'' (Some 255) mv pk = ''VARCHAR(255)''"
    by (simp add: base_type_def upper_TEXT str_int_255)
  have t256: "base_type ''TEXT'' (Some 256) mv pk = ''TEXT''"
    by (simp add: base_type_def upper_TEXT)
  have t65536: "base_type ''TEXT'' (Some 65536) mv pk = ''LONGTEXT''"
    by (simp add: base_type_def upper_TEXT)
  have i31: "base_type ''INTEGER'' ml (Some 2147483647) False = ''INT''"
    by (simp add: base_type_def upper_INTEGER)
  have i32: "base_type ''INTEGER'' ml (Some 2147483648) False = ''BIGINT''"
    by (simp add: base_type_def upper_INTEGER)
  show ?thesis
    by (simp add: sqlite_to_mysql_type_def t255 t256 t65536 i31 i32 upper_TEXT)
qed

text \<open>
  C2 (the claim: a primary-key integer column always gets the 8-byte type, marked
  auto-incrementing). The table of \<^verbatim>\<open>sqlite_to_mysql_type\<close> chooses \<^verbatim>\<open>BIGINT\<close> for a primary
  key, but the width rule on the observed maximum then overwrites it: a primary-key
  \<^verbatim>\<open>INTEGER\<close> column whose observed maximum is 5 is emitted as \<^verbatim>\<open>INT AUTO_INCREMENT\<close>.
\<close>

theorem primary_key_integer_narrowed:
  "sqlite_to_mysql_type ''INTEGER'' (Some 0) False (Some 5) True = ''INT AUTO_INCREMENT NOT NULL''"
  by (simp add: sqlite_to_mysql_type_def base_type_def upper_INTEGER)

text \<open>
  C10: a nullable column with a non-empty default that is not the \<^verbatim>\<open>NULL\<close> keyword and,
  for a \<^verbatim>\<open>TEXT\<close>, \<^verbatim>\<open>DATETIME\<close> or \<^verbatim>\<open>DATE\<close> column, does not match the function-call pattern
  gets two DEFAULT clauses: the \<^verbatim>\<open>DEFAULT NULL\<close> of the type mapper, then the
  \<^verbatim>\<open>DEFAULT <value>\<close> of the structure emitter (the value quoted for the three text-like
  types, raw otherwise).
\<close>

theorem nullable_default_two_clauses:
  assumes "m_nullable meta"
    and "m_default_value meta = Some dv"
    and "dv \<noteq> []"
    and "upper dv \<noteq> ''NULL''"
    and "m_type meta \<in> set [''TEXT'', ''DATETIME'', ''DATE'']
           \<longrightarrow> \<not> is_function_call (sanitize_sql_value dv)"
  shows "fst (column_clause col_name meta) =
           [CHR ''`''] @ escape_sql_identifier col_name @ ''` ''
           @ base_type (m_type meta) (Some (m_max_length meta)) (Some (m_max_value meta))
               (m_is_primary meta)
           @ (if m_is_primary meta \<and> upper (m_type meta) = ''INTEGER''
              then '' AUTO_INCREMENT'' else [])
           @ '' DEFAULT NULL''
           @ '' DEFAULT ''
           @ (if m_type meta \<in> set [''TEXT'', ''DATETIME'', ''DATE'']
              then [CHR 0x27] @ sanitize_sql_value dv @ [CHR 0x27] else dv)"
  using assms
  by (simp add: column_clause_def sqlite_to_mysql_type_def Let_def del: set_simps List.set_simps)

theorem nullable_default_two_clauses_witness:
  "fst (column_clause ''n'' \<lparr>m_type = ''INTEGER'', m_nullable = True, m_is_primary = False,
          m_default_value = Some ''7'', m_max_length = 0, m_max_value = 5\<rparr>)
     = ''`n` INT DEFAULT NULL DEFAULT 7''
   \<and> fst (column_clause ''t'' \<lparr>m_type = ''TEXT'', m_nullable = True, m_is_primary = False,
          m_default_value = Some ''abc'', m_max_length = 3, m_max_value = 0\<rparr>)
     = ''`t` VARCHAR(3) DEFAULT NULL DEFAULT '' @ [CHR 0x27] @ ''abc'' @ [CHR 0x27]"
proof -
  have u7: "upper ''7'' \<noteq> ''NULL''" and uabc: "upper ''abc'' \<noteq> ''NULL''"
    by (simp_all add: upper_def upper_char_def)
  have nf: "\<not> is_function_call ''abc''"
    by (simp add: is_function_call_def isword_def)
  have s: "sanitize_sql_value ''abc'' = ''abc''"
    by (simp add: sanitize_sql_value_def isprintable_def replace_char_def)
  have b1: "base_type ''INTEGER'' (Some 0) (Some 5) False = ''INT''"
    by (simp add: base_type_def upper_INTEGER)
  have b2: "base_type ''TEXT'' (Some 3) (Some 0) False = ''VARCHAR(3)''"
    by (simp add: base_type_def upper_TEXT str_int_def str_nat.simps digit_char_def)
  show ?thesis
    using nullable_default_two_clauses [of "\<lparr>m_type = ''INTEGER'', m_nullable = True,
          m_is_primary = False, m_default_value = Some ''7'', m_max_length = 0,
          m_max_value = 5\<rparr>" "''7''" "''n''"]
      nullable_default_two_clauses [of "\<lparr>m_type = ''TEXT'', m_nullable = True,
          m_is_primary = False, m_default_value = Some ''abc'', m_max_length = 3,
          m_max_value = 0\<rparr>" "''abc''" "''t''"]
    by (simp add: u7 uabc nf s b1 b2 escape_sql_identifier_def replace_char_def)
qed

section \<open>Properties of the value encoder\<close>

lemma hex_val_digit_char: "d < 16 \<Longrightarrow> hex_val (digit_char d) = Some d"
proof -
  assume "d < 16"
  then have "d = 0 \<or> d = 1 \<or> d = 2 \<or> d = 3 \<or> d = 4 \<or> d = 5 \<or> d = 6 \<or> d = 7 \<or> d = 8
      \<or> d = 9 \<or> d = 10 \<or> d = 11 \<or> d = 12 \<or> d = 13 \<or> d = 14 \<or> d = 15"
    by arith
  then show ?thesis
    by (elim disjE) (simp_all add: hex_val_def digit_char_def)
qed

lemma unhex_hex_byte: "unhex (hex_byte b @ rest) = map_option ((#) b) (unhex rest)"
proof -
  have hi: "unat b div 16 < 16"
    using unsigned_less [of b, where ?'a = nat] by (simp add: less_mult_imp_div_less)
  have lo: "unat b mod 16 < 16" by simp
  have "(of_nat (16 * (unat b div 16) + unat b mod 16) :: 8 word) = b"
    by simp
  then show ?thesis
    by (simp add: hex_byte_def hex_val_digit_char [OF hi] hex_val_digit_char [OF lo]
        split: option.splits)
qed

lemma unhex_hex: "unhex (hex bs) = Some bs"
  by (induction bs) (simp_all add: hex_def unhex_hex_byte)

text \<open>
  C9: a \<^verbatim>\<open>NULL\<close> source value is encoded as the literal \<^verbatim>\<open>NULL\<close>, whatever the declared
  type of its column (and whatever the options); nothing is written or logged for it.
\<close>

theorem null_value_literal:
  "encode_value cfg item_name col_name col_type offset i SqlNull w = (''NULL'', w)"
  by simp

lemma str_digits: "str_int 0 = ''0''" "str_nat 0 = ''0''"
  by (simp_all add: str_int_def str_nat.simps digit_char_def)

text \<open>
  C7, as the code has it: a \<^verbatim>\<open>bytes\<close> value in a column whose declared type is \<^verbatim>\<open>BLOB\<close>,
  of a length at or under the inline threshold, is encoded as \<^verbatim>\<open>UNHEX('<hex>')\<close>, and
  decoding the hexadecimal string gives the original bytes back.
\<close>

theorem inline_blob_hex_roundtrip:
  assumes "col_type = ''BLOB''" and "int (length b) \<le> max_blob_size cfg"
  shows "encode_value cfg item_name col_name col_type offset i (SqlBlob b) w
           = (''UNHEX('' @ [CHR 0x27] @ hex b @ [CHR 0x27] @ '')'', w)
         \<and> unhex (hex b) = Some b"
  using assms by (simp add: encode_blob_def unhex_hex)

theorem inline_blob_hex_roundtrip_witness:
  "int (length [0x61, 0x00, 0xFF :: 8 word]) \<le> max_blob_size default_config
   \<and> encode_value default_config ''t'' ''c'' ''BLOB'' 0 0 (SqlBlob [0x61, 0x00, 0xFF]) empty_world
       = (''UNHEX('' @ [CHR 0x27] @ ''6100ff'' @ [CHR 0x27] @ '')'', empty_world)
   \<and> unhex ''6100ff'' = Some [0x61, 0x00, 0xFF]"
proof -
  have h: "hex [0x61, 0x00, 0xFF] = ''6100ff''"
    by (simp add: hex_def hex_byte_def digit_char_def)
  have m: "int (length [0x61, 0x00, 0xFF :: 8 word]) \<le> max_blob_size default_config"
    by (simp add: default_config_def)
  show ?thesis
    using inline_blob_hex_roundtrip [OF refl m, of "''t''" "''c''" 0 0 empty_world] m
    by (simp add: h)
qed

text \<open>
  The declared type is part of the test of line 365: the one-byte value \<^verbatim>\<open>b'a'\<close> in a
  \<^verbatim>\<open>TEXT\<close> column, under the threshold, does not reach line 389, and what is emitted for
  it is not \<^verbatim>\<open>UNHEX('61')\<close>.
\<close>

theorem inline_blob_other_type_counterexample:
  "int (length [0x61 :: 8 word]) \<le> max_blob_size default_config
   \<and> fst (encode_value default_config ''t'' ''c'' ''TEXT'' 0 0 (SqlBlob [0x61]) empty_world)
       \<noteq> ''UNHEX('' @ [CHR 0x27] @ hex [0x61] @ [CHR 0x27] @ '')''"
  by (simp add: default_config_def invalid_line_def)

text \<open>
  One oversized value on its own: a \<^verbatim>\<open>bytes\<close> value in a column whose declared type is
  \<^verbatim>\<open>BLOB\<close>, longer than the inline threshold, with a non-empty blob directory and no
  failure of \<^verbatim>\<open>os.makedirs\<close> or of the write, is written to the file
  \<^verbatim>\<open><dir>/<table>_<column>_<offset>_<index>.bin\<close>, and the literal is \<^verbatim>\<open>LOAD_FILE\<close> of that
  path (or of its relative form). Right after the write the file holds the bytes of the value.
\<close>

theorem external_blob_written:
  assumes "col_type = ''BLOB''"
    and "blob_dir cfg = Some dir" and "dir \<noteq> []"
    and "int (length b) > max_blob_size cfg"
    and "makedirs_ok cfg dir"
    and "write_ok cfg (os_path_join dir (blob_filename item_name col_name offset i))"
  shows "encode_value cfg item_name col_name col_type offset i (SqlBlob b) w =
           (''LOAD_FILE('' @ [CHR 0x27]
              @ (if relative_blob_paths cfg
                 then relpath cfg (os_path_join dir (blob_filename item_name col_name offset i))
                        (os_path_dirname (dump_file cfg))
                 else os_path_join dir (blob_filename item_name col_name offset i))
              @ [CHR 0x27] @ '')'',
            w\<lparr>files := (files w)(os_path_join dir (blob_filename item_name col_name offset i)
                                  \<mapsto> b)\<rparr>)
         \<and> files (snd (encode_value cfg item_name col_name col_type offset i (SqlBlob b) w))
             (os_path_join dir (blob_filename item_name col_name offset i)) = Some b"
  using assms by (simp add: encode_blob_def blob_dir_set_def Let_def)

lemma blob_path_example:
  "os_path_join ''blobs'' (blob_filename ''t'' ''c'' 0 0) = ''blobs/t_c_0_0.bin''"
  by (simp add: os_path_join_def blob_filename_def str_digits)

theorem external_blob_written_witness:
  "encode_value (default_config\<lparr>max_blob_size := 2, blob_dir := Some ''blobs''\<rparr>)
     ''t'' ''c'' ''BLOB'' 0 0 (SqlBlob [0x61, 0x62, 0x63]) empty_world
     = (''LOAD_FILE('' @ [CHR 0x27] @ ''blobs/t_c_0_0.bin'' @ [CHR 0x27] @ '')'',
        empty_world\<lparr>files := (files empty_world)(''blobs/t_c_0_0.bin'' \<mapsto> [0x61, 0x62, 0x63])\<rparr>)
   \<and> files (snd (encode_value (default_config\<lparr>max_blob_size := 2, blob_dir := Some ''blobs''\<rparr>)
                    ''t'' ''c'' ''BLOB'' 0 0 (SqlBlob [0x61, 0x62, 0x63]) empty_world))
       ''blobs/t_c_0_0.bin'' = Some [0x61, 0x62, 0x63]"
  using external_blob_written [of "''BLOB''"
      "default_config\<lparr>max_blob_size := 2, blob_dir := Some ''blobs''\<rparr>" "''blobs''"
      "[0x61, 0x62, 0x63]" "''t''" "''c''" 0 0 empty_world]
  by (simp add: default_config_def blob_path_example)

lemma blob_column_metadata:
  "column_metadata_of blob_column empty_probes ''c''
     = Some \<lparr>m_type = ''BLOB'', m_nullable = True, m_is_primary = False,
             m_default_value = None, m_max_length = 0, m_max_value = 0\<rparr>"
  by (simp add: column_metadata_of_def blob_column_def build_metadata_def col_type_of_def
      upper_def upper_char_def empty_probes_def)

lemma blob_column_nth: "length blob_column = 1" "c_name (blob_column ! 0) = ''c''"
  by (simp_all add: blob_column_def)

text \<open>
  C4 (the claim: an oversized binary value is written to a file named from the table, the
  column, the row offset and the column index, the file holds exactly the bytes of the
  value, and the emitted placeholder references that file). The offset in the file name
  (line 367) is the offset of the page, which advances only after the page (line 415): it is
  the same for all the rows of a page. Two rows of one page with an oversized value in the
  same column name the same file, the second write replaces the first, and both placeholders
  reference a file that holds the bytes of the second row.
\<close>

theorem blob_file_shared_within_page:
  "encode_rows (default_config\<lparr>max_blob_size := 2, blob_dir := Some ''blobs''\<rparr>) ''t''
     blob_column (column_metadata_of blob_column empty_probes) 0
     [[SqlBlob [0x61, 0x62, 0x63]], [SqlBlob [0x78, 0x79, 0x7A]]] ([], 0, empty_world)
   = Inr ([''(LOAD_FILE('' @ [CHR 0x27] @ ''blobs/t_c_0_0.bin'' @ [CHR 0x27] @ ''))'',
           ''(LOAD_FILE('' @ [CHR 0x27] @ ''blobs/t_c_0_0.bin'' @ [CHR 0x27] @ ''))''],
          2,
          \<lparr>files = [''blobs/t_c_0_0.bin'' \<mapsto> [0x78, 0x79, 0x7A]], warnings = []\<rparr>)"
  by (simp add: encode_row_def blob_column_metadata encode_blob_def blob_dir_set_def
      default_config_def empty_world_def blob_path_example blob_column_nth Let_def)

section \<open>Properties of the paging loop\<close>


















section \<open>Properties of the dependency resolver\<close>

lemma dd_get_update:
  "dd_get dflt (AList.update k v d) k' = (if k' = k then v else dd_get dflt d k')"
  by (simp add: dd_get_def update_conv')

lemma add_fk_represents:
  assumes "represents es gd"
  shows "represents (es @ [(fk_table fk, table)]) (add_fk table fk gd)"
  using assms by (auto simp: represents_def add_fk_def dd_get_update Let_def)

lemma fold_add_fk_represents:
  "represents es gd \<Longrightarrow>
   represents (es @ map (\<lambda>fk. (fk_table fk, table)) fs) (fold (add_fk table) fs gd)"
proof (induction fs arbitrary: es gd)
  case Nil
  then show ?case by simp
next
  case (Cons fk fs)
  from Cons.IH [OF add_fk_represents [OF Cons.prems, of fk table]] show ?case by simp
qed

lemma fold_tables_represents:
  "represents es gd \<Longrightarrow>
   represents (es @ fk_edges fks)
     (fold (\<lambda>(table, fk_info). fold (add_fk table) fk_info) fks gd)"
proof (induction fks arbitrary: es gd)
  case Nil
  then show ?case by (simp add: fk_edges_def)
next
  case (Cons p fks)
  obtain table fk_info where p: "p = (table, fk_info)" by (cases p)
  from Cons.IH [OF fold_add_fk_represents [OF Cons.prems, of table fk_info]] p
  show ?case by (simp add: fk_edges_def)
qed

lemma init_in_degree_zero:
  "(\<forall>k. dd_get 0 d k = (0::int)) \<Longrightarrow>
   dd_get 0 (fold (\<lambda>table in_degree. AList.update table 0 in_degree) tables d) k = 0"
  by (induction tables arbitrary: d) (simp_all add: dd_get_update)

lemma build_graph_represents: "represents (fk_edges fks) (build_graph tables fks)"
proof -
  have z: "\<forall>k. dd_get 0 ([] :: in_degrees) k = 0" by (simp add: dd_get_def)
  have "represents [] ([], fold (\<lambda>table in_degree. AList.update table 0 in_degree) tables [])"
    unfolding represents_def using init_in_degree_zero [OF z, of tables]
    by (simp add: dd_get_def [of "[]" "[]"])
  from fold_tables_represents [OF this, of fks] show ?thesis
    by (simp add: build_graph_def)
qed

lemma visit_neighbor_fst:
  "dd_get 0 (fst (visit_neighbor n dq)) k
     = (if k = n then dd_get 0 (fst dq) n - 1 else dd_get 0 (fst dq) k)"
  by (simp add: visit_neighbor_def dd_get_update Let_def)

lemma visit_neighbor_snd:
  "snd (visit_neighbor n dq) = (if dd_get 0 (fst dq) n = 1 then snd dq @ [n] else snd dq)"
  by (simp add: visit_neighbor_def dd_get_update Let_def)

lemma fold_visit_neighbor_degrees:
  "dd_get 0 (fst (fold visit_neighbor ns dq)) k = dd_get 0 (fst dq) k - int (count_list ns k)"
  by (induction ns arbitrary: dq) (simp_all add: visit_neighbor_fst)

lemma count_list_pos_in_set: "0 < count_list xs x \<Longrightarrow> x \<in> set xs"
  by (metis count_list_0_iff less_numeral_extra(3))

lemma fold_visit_neighbor_queue:
  "\<exists>pushed. snd (fold visit_neighbor ns dq) = snd dq @ pushed \<and> distinct pushed
      \<and> set pushed = {k \<in> set ns. 0 < dd_get 0 (fst dq) k
                                   \<and> dd_get 0 (fst dq) k \<le> int (count_list ns k)}"
proof (induction ns arbitrary: dq)
  case Nil
  then show ?case by simp
next
  case (Cons n ns)
  let ?dq1 = "visit_neighbor n dq"
  from Cons.IH [of ?dq1] obtain pushed1 where
    q1: "snd (fold visit_neighbor ns ?dq1) = snd ?dq1 @ pushed1"
    and d1: "distinct pushed1"
    and s1: "set pushed1 = {k \<in> set ns. 0 < dd_get 0 (fst ?dq1) k
                                   \<and> dd_get 0 (fst ?dq1) k \<le> int (count_list ns k)}"
    by blast
  show ?case
  proof (cases "dd_get 0 (fst dq) n = 1")
    case True
    have "n \<notin> set pushed1" using True by (simp add: s1 visit_neighbor_fst)
    moreover have "set (n # pushed1)
        = {k \<in> set (n # ns). 0 < dd_get 0 (fst dq) k
                              \<and> dd_get 0 (fst dq) k \<le> int (count_list (n # ns) k)}"
      using True by (auto simp: s1 visit_neighbor_fst)
    ultimately show ?thesis
      using True q1 d1 by (intro exI [of _ "n # pushed1"]) (simp add: visit_neighbor_snd)
  next
    case False
    have "set pushed1
        = {k \<in> set (n # ns). 0 < dd_get 0 (fst dq) k
                              \<and> dd_get 0 (fst dq) k \<le> int (count_list (n # ns) k)}"
    proof (intro set_eqI iffI)
      fix k assume "k \<in> set pushed1"
      then show "k \<in> {k \<in> set (n # ns). 0 < dd_get 0 (fst dq) k
                              \<and> dd_get 0 (fst dq) k \<le> int (count_list (n # ns) k)}"
        by (auto simp: s1 visit_neighbor_fst split: if_splits)
    next
      fix k assume k: "k \<in> {k \<in> set (n # ns). 0 < dd_get 0 (fst dq) k
                              \<and> dd_get 0 (fst dq) k \<le> int (count_list (n # ns) k)}"
      show "k \<in> set pushed1"
      proof (cases "k = n")
        case True
        with k False have "1 < dd_get 0 (fst dq) n" by auto
        moreover from k True have "dd_get 0 (fst dq) n \<le> int (count_list ns n) + 1" by simp
        ultimately have "0 < count_list ns n" by linarith
        then have "n \<in> set ns" by (rule count_list_pos_in_set)
        with k True \<open>1 < dd_get 0 (fst dq) n\<close> show ?thesis
          by (simp add: s1 visit_neighbor_fst)
      next
        case False
        with k show ?thesis by (simp add: s1 visit_neighbor_fst)
      qed
    qed
    then show ?thesis
      using False q1 d1 by (intro exI [of _ pushed1]) (simp add: visit_neighbor_snd)
  qed
qed

lemma count_list_map_snd_filter:
  "count_list (map snd (filter P es)) k = length (filter (\<lambda>e. P e \<and> snd e = k) es)"
  by (induction es) simp_all

lemma length_filter_split:
  "length (filter P xs)
     = length (filter (\<lambda>x. P x \<and> Q x) xs) + length (filter (\<lambda>x. P x \<and> \<not> Q x) xs)"
  by (induction xs) simp_all

lemma kahn_step:
  assumes G: "\<forall>r. dd_get [] g r = map snd (filter (\<lambda>e. fst e = r) es)"
    and sub: "snd ` set es \<subseteq> V"
    and inv: "kahn_inv es V d (table # queue) s"
  shows "kahn_inv es V (fst (fold visit_neighbor (dd_get [] g table) (d, queue)))
           (snd (fold visit_neighbor (dd_get [] g table) (d, queue))) (s @ [table])"
proof -
  define ns where "ns = dd_get [] g table"
  define d' where "d' = fst (fold visit_neighbor ns (d, queue))"
  define q' where "q' = snd (fold visit_neighbor ns (d, queue))"
  from inv have dist: "distinct (s @ table # queue)"
    and inV: "set (s @ table # queue) \<subseteq> V"
    and deg: "\<And>n. dd_get 0 d n = int (length (filter (\<lambda>e. snd e = n \<and> fst e \<notin> set s) es))"
    and zero: "\<And>n. n \<in> V \<Longrightarrow> dd_get 0 d n = 0 \<longleftrightarrow> n \<in> set (s @ table # queue)"
    and ord: "\<And>i e. i < length s \<Longrightarrow> e \<in> set es \<Longrightarrow> snd e = s ! i \<Longrightarrow> fst e \<in> set (take i s)"
    unfolding kahn_inv_def by blast+
  have ns: "ns = map snd (filter (\<lambda>e. fst e = table) es)"
    using G by (simp add: ns_def)
  have nsV: "set ns \<subseteq> V" using sub by (auto simp: ns)
  have tns: "table \<notin> set s" using dist by simp
  have cnt: "int (count_list ns k) = int (length (filter (\<lambda>e. fst e = table \<and> snd e = k) es))"
    for k by (simp add: ns count_list_map_snd_filter)
  have split: "length (filter (\<lambda>e. snd e = k \<and> fst e \<notin> set s) es)
      = length (filter (\<lambda>e. snd e = k \<and> fst e \<notin> set (s @ [table])) es)
        + length (filter (\<lambda>e. fst e = table \<and> snd e = k) es)" for k
  proof -
    have a: "(\<lambda>e. (snd e = k \<and> fst e \<notin> set s) \<and> fst e \<noteq> table)
               = (\<lambda>e. snd e = k \<and> fst e \<notin> set (s @ [table]))"
      by auto
    have b: "(\<lambda>e. (snd e = k \<and> fst e \<notin> set s) \<and> \<not> fst e \<noteq> table)
               = (\<lambda>e. fst e = table \<and> snd e = k)"
      using tns by auto
    show ?thesis
      using length_filter_split [of "\<lambda>e. snd e = k \<and> fst e \<notin> set s" es "\<lambda>e. fst e \<noteq> table"]
      by (simp only: a b)
  qed
  have deg': "dd_get 0 d' k
      = int (length (filter (\<lambda>e. snd e = k \<and> fst e \<notin> set (s @ [table])) es))" for k
    unfolding d'_def fold_visit_neighbor_degrees using deg [of k] cnt [of k] split [of k]
    by simp
  have ge: "int (count_list ns k) \<le> dd_get 0 d k" for k
    using deg [of k] cnt [of k] split [of k] by simp
  from fold_visit_neighbor_queue [of ns "(d, queue)"] obtain pushed where
    q': "q' = queue @ pushed" and dp: "distinct pushed"
    and sp: "set pushed = {k \<in> set ns. 0 < dd_get 0 d k \<and> dd_get 0 d k \<le> int (count_list ns k)}"
    unfolding q'_def by auto
  have pV: "set pushed \<subseteq> V" using sp nsV by auto
  have pnew: "k \<notin> set (s @ table # queue)" if "k \<in> set pushed" for k
  proof
    assume "k \<in> set (s @ table # queue)"
    moreover from that pV have "k \<in> V" by auto
    ultimately have "dd_get 0 d k = 0" using zero by blast
    with that sp show False by simp
  qed
  have I1: "distinct ((s @ [table]) @ q')"
    using dist dp pnew by (auto simp: q')
  have I2: "set ((s @ [table]) @ q') \<subseteq> V"
    using inV pV by (auto simp: q')
  have I4: "dd_get 0 d' n = 0 \<longleftrightarrow> n \<in> set ((s @ [table]) @ q')" if nV: "n \<in> V" for n
  proof
    assume z: "dd_get 0 d' n = 0"
    then have eq: "dd_get 0 d n = int (count_list ns n)"
      by (simp add: d'_def fold_visit_neighbor_degrees)
    show "n \<in> set ((s @ [table]) @ q')"
    proof (cases "dd_get 0 d n = 0")
      case True
      with zero [OF nV] show ?thesis by (auto simp: q')
    next
      case False
      with eq have "0 < count_list ns n" by simp
      then have "n \<in> set ns" by (rule count_list_pos_in_set)
      with eq False have "n \<in> set pushed" by (simp add: sp)
      then show ?thesis by (simp add: q')
    qed
  next
    assume "n \<in> set ((s @ [table]) @ q')"
    then consider "n \<in> set (s @ table # queue)" | "n \<in> set pushed" by (auto simp: q')
    then show "dd_get 0 d' n = 0"
    proof cases
      case 1
      with zero [OF nV] have "dd_get 0 d n = 0" by blast
      with ge [of n] show ?thesis by (simp add: d'_def fold_visit_neighbor_degrees)
    next
      case 2
      with sp ge [of n] show ?thesis by (simp add: d'_def fold_visit_neighbor_degrees)
    qed
  qed
  have I5: "fst e \<in> set (take i (s @ [table]))"
    if i: "i < length (s @ [table])" and e: "e \<in> set es" and se: "snd e = (s @ [table]) ! i"
    for i e
  proof (cases "i < length s")
    case True
    with se have "snd e = s ! i" by (simp add: nth_append)
    from ord [OF True e this] True show ?thesis by simp
  next
    case False
    with i have il: "i = length s" by simp
    with se have st: "snd e = table" by simp
    have "table \<in> V" using inV by simp
    with zero [of table] have "dd_get 0 d table = 0" by simp
    with deg [of table] have "filter (\<lambda>e. snd e = table \<and> fst e \<notin> set s) es = []" by simp
    with e st have "fst e \<in> set s" by (auto simp: filter_empty_conv)
    then show ?thesis by (simp add: il)
  qed
  show ?thesis
    unfolding kahn_inv_def ns_def [symmetric] d'_def [symmetric] q'_def [symmetric]
    using I1 I2 deg' I4 I5 by blast
qed

lemma kahn_loop_inv:
  assumes sub: "snd ` set es \<subseteq> V"
  shows "\<forall>r. dd_get [] g r = map snd (filter (\<lambda>e. fst e = r) es) \<Longrightarrow>
         kahn_inv es V d q s \<Longrightarrow> \<exists>d'. kahn_inv es V d' [] (kahn_loop g d q s v)"
proof (induction g d q s v rule: kahn_loop.induct)
  case (1 graph in_degree sorted_tables visited)
  then show ?case by auto
next
  case (2 graph in_degree table queue sorted_tables visited)
  have "kahn_inv es V
      (fst (fold visit_neighbor (dd_get [] graph table) (in_degree, queue)))
      (snd (fold visit_neighbor (dd_get [] graph table) (in_degree, queue)))
      (sorted_tables @ [table])"
    by (rule kahn_step [OF "2.prems"(1) sub "2.prems"(2)])
  from "2.IH" [OF "2.prems"(1) this] show ?case by simp
qed

lemma snd_fk_edges: "snd ` set (fk_edges fks) \<subseteq> fst ` set fks"
  by (force simp: fk_edges_def)

lemma kahn_sorted_inv:
  assumes "distinct tables" and "fst ` set fks \<subseteq> set tables"
  shows "\<exists>d'. kahn_inv (fk_edges fks) (set tables) d' [] (kahn_sorted tables fks)"
proof -
  define g where "g = fst (build_graph tables fks)"
  define d where "d = snd (build_graph tables fks)"
  have G: "\<forall>r. dd_get [] g r = map snd (filter (\<lambda>e. fst e = r) (fk_edges fks))"
    and D: "\<And>t. dd_get 0 d t = int (length (filter (\<lambda>e. snd e = t) (fk_edges fks)))"
    using build_graph_represents [of fks tables] by (simp_all add: represents_def g_def d_def)
  have sub: "snd ` set (fk_edges fks) \<subseteq> set tables"
    using snd_fk_edges assms(2) by blast
  have "kahn_inv (fk_edges fks) (set tables) d (filter (\<lambda>t. dd_get 0 d t = 0) tables) []"
    unfolding kahn_inv_def using assms(1) by (auto simp: D)
  from kahn_loop_inv [OF sub G this, of "{}"] show ?thesis
    by (simp add: kahn_sorted_def g_def d_def Let_def)
qed

lemma list_index_nth: "distinct xs \<Longrightarrow> i < length xs \<Longrightarrow> list_index xs (xs ! i) = Some i"
proof (induction xs arbitrary: i)
  case Nil
  then show ?case by simp
next
  case (Cons x xs)
  show ?case
  proof (cases i)
    case 0
    then show ?thesis by simp
  next
    case (Suc j)
    with Cons.prems have "xs ! j \<in> set xs" "x \<notin> set xs" by simp_all
    then have "x \<noteq> xs ! j" by auto
    with Cons Suc show ?thesis by simp
  qed
qed

lemma distinct_count_list_one: "distinct xs \<Longrightarrow> x \<in> set xs \<Longrightarrow> count_list xs x = 1"
  by (induction xs) auto

text \<open>
  C6: for every list of distinct tables and every foreign-key map over these tables, with or
  without a cycle, the resolver returns (the loop ends) a list that holds every table
  exactly once: the tables the loop has sorted, then the remaining ones in catalog order.
\<close>

theorem resolver_every_table_once:
  assumes "distinct tables" and "fst ` set foreign_keys \<subseteq> set tables"
  shows "distinct (fst (topological_sort_tables tables foreign_keys))
         \<and> set (fst (topological_sort_tables tables foreign_keys)) = set tables
         \<and> (\<forall>t \<in> set tables. count_list (fst (topological_sort_tables tables foreign_keys)) t = 1)
         \<and> fst (topological_sort_tables tables foreign_keys)
             = kahn_sorted tables foreign_keys
               @ filter (\<lambda>t. t \<notin> set (kahn_sorted tables foreign_keys)) tables"
proof -
  define s where "s = kahn_sorted tables foreign_keys"
  define res where "res = fst (topological_sort_tables tables foreign_keys)"
  from kahn_sorted_inv [OF assms] have ds: "distinct s" and sV: "set s \<subseteq> set tables"
    by (auto simp: kahn_inv_def s_def)
  have full: "set s = set tables" if "length s = length tables"
  proof -
    from that ds assms(1) have "card (set s) = card (set tables)"
      by (simp add: distinct_card)
    with sV show ?thesis by (simp add: card_subset_eq)
  qed
  have form: "res = s @ filter (\<lambda>t. t \<notin> set s) tables"
  proof (cases "length s = length tables")
    case True
    from full [OF True] have "filter (\<lambda>t. t \<notin> set s) tables = []"
      by (simp add: filter_empty_conv)
    with True show ?thesis
      by (simp add: res_def topological_sort_tables_def s_def [symmetric])
  next
    case False
    then show ?thesis
      by (simp add: res_def topological_sort_tables_def s_def [symmetric])
  qed
  have dr: "distinct res" using ds assms(1) by (auto simp: form)
  have sr: "set res = set tables" using sV by (auto simp: form)
  have "count_list res t = 1" if "t \<in> set tables" for t
    using that dr sr by (simp add: distinct_count_list_one)
  with dr sr form show ?thesis
    unfolding res_def s_def by blast
qed

lemmas resolver_eval =
  topological_sort_tables_def kahn_sorted_def build_graph_def add_fk_def references_def
  dd_get_def visit_neighbor_def Let_def

theorem resolver_every_table_once_witness:
  "fst (topological_sort_tables [''A'', ''B'']
          [(''A'', [references ''B'']), (''B'', [references ''A''])]) = [''A'', ''B'']
   \<and> snd (topological_sort_tables [''A'', ''B'']
          [(''A'', [references ''B'']), (''B'', [references ''A''])])
       = [''Cyclic dependencies detected. Tables may need manual reordering in the SQL file.'']
   \<and> kahn_sorted [''A'', ''B''] [(''A'', [references ''B'']), (''B'', [references ''A''])] = []
   \<and> distinct (fst (topological_sort_tables [''A'', ''B'']
          [(''A'', [references ''B'']), (''B'', [references ''A''])]))
   \<and> count_list (fst (topological_sort_tables [''A'', ''B'']
          [(''A'', [references ''B'']), (''B'', [references ''A''])])) ''A'' = 1"
proof -
  have d: "distinct [''A'', ''B'']" by simp
  have k: "fst ` set [(''A'', [references ''B'']), (''B'', [references ''A''])]
             \<subseteq> set [''A'', ''B'']" by simp
  have ks: "kahn_sorted [''A'', ''B''] [(''A'', [references ''B'']), (''B'', [references ''A''])]
              = []"
    by (simp add: resolver_eval)
  have w: "snd (topological_sort_tables [''A'', ''B'']
          [(''A'', [references ''B'']), (''B'', [references ''A''])])
       = [''Cyclic dependencies detected. Tables may need manual reordering in the SQL file.'']"
    by (simp add: topological_sort_tables_def ks)
  from resolver_every_table_once [OF d k] ks w show ?thesis by simp
qed

text \<open>
  When every foreign key references a table of the list and the foreign keys form no cycle,
  the loop reaches every table, and each table comes strictly after every table it
  references: the rank of the referenced table, as \<^verbatim>\<open>sorted_tables.index\<close> gives it, is the
  smaller one.
\<close>

theorem resolver_order_closed_acyclic:
  assumes dist: "distinct tables"
    and keys: "fst ` set foreign_keys \<subseteq> set tables"
    and closed: "fst ` set (fk_edges foreign_keys) \<subseteq> set tables"
    and acyc: "acyclic (set (fk_edges foreign_keys))"
    and edge: "(r, t) \<in> set (fk_edges foreign_keys)"
  shows "\<exists>i j. list_index (fst (topological_sort_tables tables foreign_keys)) r = Some i
            \<and> list_index (fst (topological_sort_tables tables foreign_keys)) t = Some j
            \<and> i < j"
proof -
  define es where "es = fk_edges foreign_keys"
  define s where "s = kahn_sorted tables foreign_keys"
  from kahn_sorted_inv [OF dist keys] obtain d' where
    inv: "kahn_inv es (set tables) d' [] s" by (auto simp: es_def s_def)
  then have ds: "distinct s" and sV: "set s \<subseteq> set tables"
    and deg: "\<And>n. dd_get 0 d' n = int (length (filter (\<lambda>e. snd e = n \<and> fst e \<notin> set s) es))"
    and zero: "\<And>n. n \<in> set tables \<Longrightarrow> dd_get 0 d' n = 0 \<longleftrightarrow> n \<in> set s"
    and ord: "\<And>i e. i < length s \<Longrightarrow> e \<in> set es \<Longrightarrow> snd e = s ! i \<Longrightarrow> fst e \<in> set (take i s)"
    unfolding kahn_inv_def by auto
  have wf: "wf (set es)"
    using acyc by (simp add: es_def finite_acyclic_wf)
  have all: "set s = set tables"
  proof (rule ccontr)
    assume "set s \<noteq> set tables"
    with sV obtain x where "x \<in> set tables - set s" by auto
    with wf obtain z where z: "z \<in> set tables - set s"
      and min: "\<And>y. (y, z) \<in> set es \<Longrightarrow> y \<notin> set tables - set s"
      by (rule wfE_min) blast
    from z zero [of z] have "dd_get 0 d' z \<noteq> 0" by simp
    with deg [of z] have "filter (\<lambda>e. snd e = z \<and> fst e \<notin> set s) es \<noteq> []" by auto
    then obtain e where e: "e \<in> set es" "snd e = z" "fst e \<notin> set s"
      by (auto simp: filter_empty_conv)
    from e(1) closed have "fst e \<in> set tables" by (auto simp: es_def)
    moreover from e have "(fst e, z) \<in> set es" by (metis prod.collapse)
    ultimately show False using min e(3) by blast
  qed
  with ds dist have "length s = length tables"
    by (metis distinct_card)
  then have res: "fst (topological_sort_tables tables foreign_keys) = s"
    by (simp add: topological_sort_tables_def s_def)
  from edge keys snd_fk_edges [of foreign_keys] have "t \<in> set tables" by force
  with all have "t \<in> set s" by simp
  then obtain j where j: "j < length s" "s ! j = t" by (auto simp: in_set_conv_nth)
  from ord [OF j(1), of "(r, t)"] edge j(2) have "r \<in> set (take j s)"
    by (simp add: es_def)
  then obtain i where i: "i < length (take j s)" "take j s ! i = r"
    by (auto simp: in_set_conv_nth)
  with j(1) have ij: "i < j" "s ! i = r" by simp_all
  with j(1) have il: "i < length s" by simp
  from list_index_nth [OF ds il] list_index_nth [OF ds j(1)] ij j(2) show ?thesis
    unfolding res by auto
qed

lemma acyclic_no_edge: "acyclic ({} :: ('a \<times> 'a) set)"
  by (simp add: acyclic_def)

lemma acyclic_single: "a \<noteq> b \<Longrightarrow> acyclic {(a, b)}"
  by (simp add: acyclic_no_edge)

theorem resolver_order_closed_acyclic_witness:
  "\<exists>i j. list_index (fst (topological_sort_tables [''B'', ''A'']
                          [(''B'', [references ''A'']), (''A'', [])])) ''A'' = Some i
       \<and> list_index (fst (topological_sort_tables [''B'', ''A'']
                          [(''B'', [references ''A'']), (''A'', [])])) ''B'' = Some j
       \<and> i < j"
proof -
  have e: "fk_edges [(''B'', [references ''A'']), (''A'', [])] = [(''A'', ''B'')]"
    by (simp add: fk_edges_def references_def)
  have a: "acyclic (set (fk_edges [(''B'', [references ''A'']), (''A'', [])]))"
    unfolding e by (simp add: acyclic_no_edge)
  show ?thesis
    by (rule resolver_order_closed_acyclic [OF _ _ _ a]) (simp_all add: e)
qed

text \<open>
  C1 (the claim: for an acyclic foreign-key graph every table comes strictly after every
  table it references). A foreign key to a table that is not in the list still raises the
  in-degree of its table, which then never reaches zero: the table and the tables that
  depend on it are taken for a cycle and appended in catalog order. Here \<^verbatim>\<open>B\<close> references
  \<^verbatim>\<open>A\<close>, and \<^verbatim>\<open>A\<close> references a table \<^verbatim>\<open>X\<close> that does not exist; the graph has no cycle,
  and \<^verbatim>\<open>B\<close> is placed before \<^verbatim>\<open>A\<close>.
\<close>

theorem dangling_reference_breaks_order:
  "topological_sort_tables [''B'', ''A'']
     [(''B'', [references ''A'']), (''A'', [references ''X''])]
   = ([''B'', ''A''],
      [''Cyclic dependencies detected. Tables may need manual reordering in the SQL file.''])
   \<and> fk_edges [(''B'', [references ''A'']), (''A'', [references ''X''])]
       = [(''A'', ''B''), (''X'', ''A'')]
   \<and> acyclic (set [(''A'', ''B''), (''X'', ''A'')])
   \<and> list_index [''B'', ''A''] ''A'' = Some 1
   \<and> list_index [''B'', ''A''] ''B'' = Some 0"
proof -
  have "acyclic {(''X'', ''A'')}" by (simp add: acyclic_no_edge)
  moreover have "(''B'', ''A'') \<notin> {(''X'', ''A'')}\<^sup>*"
    by (auto elim: converse_rtranclE)
  ultimately have "acyclic (set [(''A'', ''B''), (''X'', ''A'')])"
    by (simp add: acyclic_no_edge)
  moreover have "topological_sort_tables [''B'', ''A'']
     [(''B'', [references ''A'']), (''A'', [references ''X''])]
   = ([''B'', ''A''],
      [''Cyclic dependencies detected. Tables may need manual reordering in the SQL file.''])"
    by (simp add: resolver_eval)
  moreover have "fk_edges [(''B'', [references ''A'']), (''A'', [references ''X''])]
       = [(''A'', ''B''), (''X'', ''A'')]"
    by (simp add: fk_edges_def references_def)
  ultimately show ?thesis by simp
qed

end
